theory Spec2Isabelle
  imports Main
begin

section \<open>The kernel mutex of kmutex.c\<close>

text \<open>
  The mutex code of \<^verbatim>\<open>kmutex.c\<close> works on four pieces of memory: the global
  \<^verbatim>\<open>curthr\<close>, the thread control blocks it reaches through thread pointers, the
  mutex \<^verbatim>\<open>*mtx\<close> it is called on, and the scheduler's run queue, which it reaches
  through \<^verbatim>\<open>sched_make_runnable\<close>. A thread pointer is a number; \<^verbatim>\<open>NULL\<close> is
  \<open>None\<close>.
\<close>

subsection \<open>Data\<close>

type_synonym tid = nat

text \<open>The enum of \<^verbatim>\<open>kthread.h\<close>, in its order.\<close>

datatype kthread_state_t =
    KT_NO_STATE
  | KT_RUN
  | KT_SLEEP
  | KT_SLEEP_CANCELLABLE
  | KT_EXITED

text \<open>
  The fields of \<^verbatim>\<open>struct kthread\<close> that \<^verbatim>\<open>kmutex.c\<close> reads or writes. The
  queue link \<^verbatim>\<open>kt_qlink\<close> is the thread's position in the list of the queue it is on.
\<close>

record kthread =
  kt_cancelled :: int
  kt_state :: kthread_state_t

text \<open>
  Modelled from the spec: \<^verbatim>\<open>ktqueue_t\<close> is declared in \<^verbatim>\<open>proc/sched.h\<close>, which is
  not among the sources. The spec describes it as an ordered FIFO collection of blocked
  threads plus a count; \<^verbatim>\<open>kmutex_init\<close> names its two fields.
\<close>

record ktqueue =
  tq_list :: "tid list"
  tq_size :: int

text \<open>
  Modelled from the spec: \<^verbatim>\<open>kmutex_t\<close> is declared in \<^verbatim>\<open>proc/kmutex.h\<close>, which is
  not among the sources. The code uses the two fields below: one wait queue and a holder
  reference.
\<close>

record kmutex =
  km_waitq :: ktqueue
  km_holder :: "tid option"

record kstate =
  curthr :: "tid option"
  threads :: "tid \<Rightarrow> kthread"
  runq :: "tid list"
  mtx :: kmutex

text \<open>
  Modelled from the spec: \<^verbatim>\<open>KASSERT\<close> comes from \<^verbatim>\<open>util/debug.h\<close>, which is not
  among the sources. A failed assertion is a fatal contract violation: the kernel halts
  and no state is handed back. Dequeuing from an empty queue is the other way a call can
  end without returning.
\<close>

datatype kerror = Assertion_failed | Dequeue_empty

text \<open>
  Modelled from the spec: \<^verbatim>\<open>sched_switch\<close> is the scheduler's suspend primitive; the
  caller gives up the CPU and the call returns only when the thread has been made
  runnable again. A function that reaches \<^verbatim>\<open>sched_switch\<close> is therefore cut in two at
  that call: its outcome is \<open>Switch s\<close>, with \<open>s\<close> the memory at the moment of the
  switch, and the rest of its body is a second function, run when the thread is
  dispatched again.
\<close>

datatype 'r outcome = Panic kerror | Return 'r kstate | Switch kstate

text \<open>
  Modelled from the spec: \<^verbatim>\<open>errno.h\<close> is not among the sources; \<^verbatim>\<open>EINTR\<close> has its
  customary value.
\<close>

definition EINTR :: int where
  "EINTR = 4"

subsection \<open>The wait queue and the scheduler\<close>

text \<open>
  Modelled from the spec: \<^verbatim>\<open>ktqueue_enqueue\<close> is declared \<^verbatim>\<open>extern\<close> and defined
  outside the sources. It appends the thread to the tail and increments the size.
\<close>

definition ktqueue_enqueue :: "ktqueue \<Rightarrow> tid \<Rightarrow> ktqueue" where
  "ktqueue_enqueue q thr = q\<lparr>tq_list := tq_list q @ [thr], tq_size := tq_size q + 1\<rparr>"

text \<open>
  Modelled from the spec: \<^verbatim>\<open>ktqueue_dequeue\<close> is declared \<^verbatim>\<open>extern\<close> and defined
  outside the sources. It removes and returns the head thread and decrements the size;
  on an empty queue there is nothing to return.
\<close>

definition ktqueue_dequeue :: "ktqueue \<Rightarrow> (tid \<times> ktqueue) option" where
  "ktqueue_dequeue q =
     (case tq_list q of
        [] \<Rightarrow> None
      | thr # rest \<Rightarrow> Some (thr, q\<lparr>tq_list := rest, tq_size := tq_size q - 1\<rparr>))"

text \<open>
  Modelled from the spec: \<^verbatim>\<open>sched_make_runnable\<close> belongs to the scheduler, outside
  the sources. It moves a thread into the runnable set.
\<close>

definition sched_make_runnable :: "tid \<Rightarrow> kstate \<Rightarrow> kstate" where
  "sched_make_runnable thr s = s\<lparr>runq := runq s @ [thr]\<rparr>"

subsection \<open>The mutex operations\<close>

definition kmutex_init :: "kstate \<Rightarrow> kstate" where
  "kmutex_init s =
     s\<lparr>mtx := \<lparr>km_waitq = \<lparr>tq_list = [], tq_size = 0\<rparr>, km_holder = None\<rparr>\<rparr>"

text \<open>
  \<^verbatim>\<open>kmutex_unlock\<close>: the precondition assertion, the two branches on \<^verbatim>\<open>tq_size\<close>,
  the postcondition assertion. \<open>kmutex_unlock_body\<close> is the \<^verbatim>\<open>if/else\<close> between the
  two assertions.
\<close>

definition kmutex_unlock_body :: "kstate \<Rightarrow> kerror + kstate" where
  "kmutex_unlock_body s =
     (if 0 = tq_size (km_waitq (mtx s))
      then Inr (s\<lparr>mtx := (mtx s)\<lparr>km_holder := None\<rparr>\<rparr>)
      else
        (case ktqueue_dequeue (km_waitq (mtx s)) of
           None \<Rightarrow> Inl Dequeue_empty
         | Some (next_in_queue, q) \<Rightarrow>
             Inr (sched_make_runnable next_in_queue
                   (s\<lparr>mtx := (mtx s)\<lparr>km_waitq := q, km_holder := Some next_in_queue\<rparr>,
                      threads := (threads s)
                        (next_in_queue := (threads s next_in_queue)\<lparr>kt_state := KT_RUN\<rparr>)\<rparr>))))"

definition kmutex_unlock :: "kstate \<Rightarrow> kerror + kstate" where
  "kmutex_unlock s =
     (if curthr s \<noteq> None \<and> curthr s = km_holder (mtx s)
      then
        (case kmutex_unlock_body s of
           Inl e \<Rightarrow> Inl e
         | Inr s' \<Rightarrow>
             if curthr s' \<noteq> km_holder (mtx s') then Inr s' else Inl Assertion_failed)
      else Inl Assertion_failed)"

text \<open>
  \<^verbatim>\<open>kmutex_lock\<close>. \<open>kmutex_lock_resume\<close> is the end of the body, from the closing
  assertion on: the free branch falls through to it, the blocked branch reaches it when
  \<^verbatim>\<open>sched_switch\<close> returns.
\<close>

definition kmutex_lock_resume :: "kstate \<Rightarrow> unit outcome" where
  "kmutex_lock_resume s =
     (if curthr s \<noteq> None \<and> curthr s = km_holder (mtx s)
      then Return () s
      else Panic Assertion_failed)"

definition kmutex_lock :: "kstate \<Rightarrow> unit outcome" where
  "kmutex_lock s =
     (case curthr s of
        None \<Rightarrow> Panic Assertion_failed
      | Some cur \<Rightarrow>
          if Some cur = km_holder (mtx s) then Panic Assertion_failed
          else if km_holder (mtx s) = None
          then kmutex_lock_resume (s\<lparr>mtx := (mtx s)\<lparr>km_holder := Some cur\<rparr>\<rparr>)
          else Switch
                 (s\<lparr>threads := (threads s)(cur := (threads s cur)\<lparr>kt_state := KT_SLEEP\<rparr>),
                    mtx := (mtx s)\<lparr>km_waitq := ktqueue_enqueue (km_waitq (mtx s)) cur\<rparr>\<rparr>))"

text \<open>
  \<^verbatim>\<open>kmutex_lock_cancellable\<close>, cut at \<^verbatim>\<open>sched_switch\<close> in the same way. The end of
  the body holds the closing assertion, the test of \<^verbatim>\<open>kt_cancelled\<close> and the call of
  \<^verbatim>\<open>kmutex_unlock\<close>.
\<close>

definition kmutex_lock_cancellable_resume :: "kstate \<Rightarrow> int outcome" where
  "kmutex_lock_cancellable_resume s =
     (case curthr s of
        None \<Rightarrow> Panic Assertion_failed
      | Some cur \<Rightarrow>
          if Some cur \<noteq> km_holder (mtx s) then Panic Assertion_failed
          else if kt_cancelled (threads s cur) \<noteq> 0
          then (case kmutex_unlock s of
                  Inl e \<Rightarrow> Panic e
                | Inr s' \<Rightarrow> Return (- EINTR) s')
          else Return 0 s)"

definition kmutex_lock_cancellable :: "kstate \<Rightarrow> int outcome" where
  "kmutex_lock_cancellable s =
     (case curthr s of
        None \<Rightarrow> Panic Assertion_failed
      | Some cur \<Rightarrow>
          if Some cur = km_holder (mtx s) then Panic Assertion_failed
          else if km_holder (mtx s) = None
          then kmutex_lock_cancellable_resume (s\<lparr>mtx := (mtx s)\<lparr>km_holder := Some cur\<rparr>\<rparr>)
          else Switch
                 (s\<lparr>threads := (threads s)
                      (cur := (threads s cur)\<lparr>kt_state := KT_SLEEP_CANCELLABLE\<rparr>),
                    mtx := (mtx s)\<lparr>km_waitq := ktqueue_enqueue (km_waitq (mtx s)) cur\<rparr>\<rparr>))"

subsection \<open>Threads taking turns on one mutex\<close>

text \<open>
  Modelled from the spec: the scheduler is outside the sources. One thread executes
  kernel code at a time, and a mutex operation runs without interruption up to its
  return or its \<^verbatim>\<open>sched_switch\<close>. A run of the system is a list of events: a thread
  that is executing calls one of the three operations, or the scheduler dispatches a
  thread that is on the run queue, which then goes on from the point where it was
  suspended. Which runnable thread the scheduler picks is left open.
\<close>

datatype resume_point = In_kmutex_lock | In_kmutex_lock_cancellable

datatype kcall = Lock | Lock_cancellable | Unlock

datatype event = Call tid kcall | Dispatch tid

datatype fault = Kernel_halt kerror | Not_schedulable

text \<open>
  Besides the kernel memory and the resume point of every suspended thread, the system
  state keeps three histories that the code does not have: the threads in the order in
  which they were put on the wait queue, the threads in the order in which an unlock
  made them holder, and the threads that have come back from a lock call with the mutex
  and have not unlocked it since.
\<close>

record sys =
  kern :: kstate
  suspended :: "tid \<Rightarrow> resume_point option"
  arrived :: "tid list"
  granted :: "tid list"
  owners :: "tid list"

definition handed :: "kstate \<Rightarrow> tid list" where
  "handed s = (case km_holder (mtx s) of None \<Rightarrow> [] | Some w \<Rightarrow> [w])"

definition as_int :: "unit outcome \<Rightarrow> int outcome" where
  "as_int out = (case out of Panic e \<Rightarrow> Panic e | Return _ s \<Rightarrow> Return 0 s | Switch s \<Rightarrow> Switch s)"

text \<open>
  What the system records when thread \<open>t\<close> comes out of a lock operation: a halt; a
  return with the mutex (value 0); a return without it, after the unlock inside the
  cancellable lock; or a suspension at resume point \<open>k\<close>.
\<close>

definition settle :: "tid \<Rightarrow> resume_point \<Rightarrow> sys \<Rightarrow> int outcome \<Rightarrow> fault + sys" where
  "settle t k \<sigma> out =
     (case out of
        Panic e \<Rightarrow> Inl (Kernel_halt e)
      | Return r s' \<Rightarrow>
          Inr (if r = 0
               then \<sigma>\<lparr>kern := s', suspended := (suspended \<sigma>)(t := None),
                      owners := owners \<sigma> @ [t]\<rparr>
               else \<sigma>\<lparr>kern := s', suspended := (suspended \<sigma>)(t := None),
                      granted := granted \<sigma> @ handed s'\<rparr>)
      | Switch s' \<Rightarrow>
          Inr (\<sigma>\<lparr>kern := s', suspended := (suspended \<sigma>)(t \<mapsto> k),
                 arrived := arrived \<sigma> @ [t]\<rparr>))"

text \<open>
  Modelled from the spec: a call comes from the thread that is executing, which is
  neither suspended in a lock operation nor waiting on the run queue; it becomes
  \<^verbatim>\<open>curthr\<close> for the call.
\<close>

definition sys_call :: "tid \<Rightarrow> kcall \<Rightarrow> sys \<Rightarrow> fault + sys" where
  "sys_call t c \<sigma> =
     (if suspended \<sigma> t \<noteq> None \<or> t \<in> set (runq (kern \<sigma>)) then Inl Not_schedulable
      else
        (case c of
           Lock \<Rightarrow>
             settle t In_kmutex_lock \<sigma> (as_int (kmutex_lock ((kern \<sigma>)\<lparr>curthr := Some t\<rparr>)))
         | Lock_cancellable \<Rightarrow>
             settle t In_kmutex_lock_cancellable \<sigma>
               (kmutex_lock_cancellable ((kern \<sigma>)\<lparr>curthr := Some t\<rparr>))
         | Unlock \<Rightarrow>
             (case kmutex_unlock ((kern \<sigma>)\<lparr>curthr := Some t\<rparr>) of
                Inl e \<Rightarrow> Inl (Kernel_halt e)
              | Inr s' \<Rightarrow>
                  Inr (\<sigma>\<lparr>kern := s', owners := remove1 t (owners \<sigma>),
                         granted := granted \<sigma> @ handed s'\<rparr>))))"

text \<open>
  Modelled from the spec: the scheduler takes a thread off the run queue and makes it
  \<^verbatim>\<open>curthr\<close>; if the thread was suspended in a lock operation, its
  \<^verbatim>\<open>sched_switch\<close> returns and the end of that operation's body runs.
\<close>

definition sys_dispatch :: "tid \<Rightarrow> sys \<Rightarrow> fault + sys" where
  "sys_dispatch t \<sigma> =
     (if t \<notin> set (runq (kern \<sigma>)) then Inl Not_schedulable
      else
        (case suspended \<sigma> t of
           None \<Rightarrow>
             Inr (\<sigma>\<lparr>kern := (kern \<sigma>)\<lparr>curthr := Some t, runq := removeAll t (runq (kern \<sigma>))\<rparr>\<rparr>)
         | Some In_kmutex_lock \<Rightarrow>
             settle t In_kmutex_lock \<sigma>
               (as_int (kmutex_lock_resume
                  ((kern \<sigma>)\<lparr>curthr := Some t, runq := removeAll t (runq (kern \<sigma>))\<rparr>)))
         | Some In_kmutex_lock_cancellable \<Rightarrow>
             settle t In_kmutex_lock_cancellable \<sigma>
               (kmutex_lock_cancellable_resume
                  ((kern \<sigma>)\<lparr>curthr := Some t, runq := removeAll t (runq (kern \<sigma>))\<rparr>))))"

fun step :: "event \<Rightarrow> sys \<Rightarrow> fault + sys" where
  "step (Call t c) \<sigma> = sys_call t c \<sigma>"
| "step (Dispatch t) \<sigma> = sys_dispatch t \<sigma>"

fun run :: "event list \<Rightarrow> sys \<Rightarrow> fault + sys" where
  "run [] \<sigma> = Inr \<sigma>"
| "run (e # es) \<sigma> = (case step e \<sigma> of Inl f \<Rightarrow> Inl f | Inr \<sigma>' \<Rightarrow> run es \<sigma>')"

text \<open>The system starts with the mutex just initialised and no thread suspended.\<close>

definition sys_init :: "kstate \<Rightarrow> sys" where
  "sys_init s =
     \<lparr>kern = kmutex_init s, suspended = (\<lambda>_. None), arrived = [], granted = [], owners = []\<rparr>"

subsection \<open>Vocabulary of the statements\<close>

text \<open>
  The invariant of the wait queue in the data model: its count is the number of threads
  linked on it.
\<close>

definition waitq_ok :: "kstate \<Rightarrow> bool" where
  "waitq_ok s \<longleftrightarrow> tq_size (km_waitq (mtx s)) = int (length (tq_list (km_waitq (mtx s))))"

text \<open>The threads linked on the wait queue of the mutex, head first.\<close>

definition waiters :: "kstate \<Rightarrow> tid list" where
  "waiters s = tq_list (km_waitq (mtx s))"

text \<open>The memory an operation leaves behind when it returns or switches.\<close>

definition final :: "'r outcome \<Rightarrow> kstate option" where
  "final out = (case out of Panic e \<Rightarrow> None | Return r s \<Rightarrow> Some s | Switch s \<Rightarrow> Some s)"

definition map_outcome :: "(kstate \<Rightarrow> kstate) \<Rightarrow> 'r outcome \<Rightarrow> 'r outcome" where
  "map_outcome f out =
     (case out of Panic e \<Rightarrow> Panic e | Return r s \<Rightarrow> Return r (f s) | Switch s \<Rightarrow> Switch (f s))"

text \<open>
  What holds of the system after every run: the wait queue is well formed and holds
  exactly the suspended threads that have not been handed the mutex; a suspended thread
  that has been handed it is on the run queue; neither the holder nor a runnable thread
  is on the wait queue; a free mutex has no waiters; the arrivals are the grants
  followed by the threads still waiting; a suspended holder is the thread of the latest
  grant; and the only thread that can be back from a lock call with the mutex is the
  holder, which is then neither suspended nor queued.
\<close>

definition sys_inv :: "sys \<Rightarrow> bool" where
  "sys_inv \<sigma> \<longleftrightarrow>
     waitq_ok (kern \<sigma>)
     \<and> distinct (waiters (kern \<sigma>))
     \<and> (\<forall>t \<in> set (waiters (kern \<sigma>)). suspended \<sigma> t \<noteq> None \<and> t \<notin> set (runq (kern \<sigma>)))
     \<and> (\<forall>t. suspended \<sigma> t \<noteq> None \<longrightarrow>
           t \<in> set (waiters (kern \<sigma>))
           \<or> (t \<in> set (runq (kern \<sigma>)) \<and> km_holder (mtx (kern \<sigma>)) = Some t))
     \<and> (\<forall>h. km_holder (mtx (kern \<sigma>)) = Some h \<longrightarrow> h \<notin> set (waiters (kern \<sigma>)))
     \<and> (km_holder (mtx (kern \<sigma>)) = None \<longrightarrow> waiters (kern \<sigma>) = [])
     \<and> arrived \<sigma> = granted \<sigma> @ waiters (kern \<sigma>)
     \<and> (\<forall>t. suspended \<sigma> t \<noteq> None \<and> km_holder (mtx (kern \<sigma>)) = Some t \<longrightarrow>
           granted \<sigma> \<noteq> [] \<and> last (granted \<sigma>) = t)
     \<and> (owners \<sigma> = []
        \<or> (\<exists>t. owners \<sigma> = [t] \<and> km_holder (mtx (kern \<sigma>)) = Some t
              \<and> suspended \<sigma> t = None \<and> t \<notin> set (runq (kern \<sigma>))))"

text \<open>
  The memory after thread \<open>t\<close> has claimed the mutex, and the memory at the moment
  \<open>t\<close> switches away after putting itself on the wait queue in state \<open>st\<close>.
\<close>

definition claimed :: "tid \<Rightarrow> kstate \<Rightarrow> kstate" where
  "claimed t s = s\<lparr>mtx := (mtx s)\<lparr>km_holder := Some t\<rparr>\<rparr>"

definition blocked :: "tid \<Rightarrow> kthread_state_t \<Rightarrow> kstate \<Rightarrow> kstate" where
  "blocked t st s =
     s\<lparr>threads := (threads s)(t := (threads s t)\<lparr>kt_state := st\<rparr>),
       mtx := (mtx s)\<lparr>km_waitq := (km_waitq (mtx s))
                \<lparr>tq_list := tq_list (km_waitq (mtx s)) @ [t],
                 tq_size := tq_size (km_waitq (mtx s)) + 1\<rparr>\<rparr>\<rparr>"

text \<open>What an operation outside this file does when it sets or clears a cancelled flag.\<close>

definition with_cancelled :: "tid \<Rightarrow> int \<Rightarrow> kstate \<Rightarrow> kstate" where
  "with_cancelled u v s = s\<lparr>threads := (threads s)(u := (threads s u)\<lparr>kt_cancelled := v\<rparr>)\<rparr>"

text \<open>Example memory for the concrete runs below: every thread runnable and not cancelled.\<close>

definition fresh :: kstate where
  "fresh =
     \<lparr>curthr = None, threads = (\<lambda>_. \<lparr>kt_cancelled = 0, kt_state = KT_RUN\<rparr>), runq = [],
      mtx = \<lparr>km_waitq = \<lparr>tq_list = [], tq_size = 0\<rparr>, km_holder = None\<rparr>\<rparr>"

text \<open>The mutex held by \<open>h\<close> with the threads \<open>q\<close> waiting, and \<open>cur\<close> executing.\<close>

definition held_by :: "tid \<Rightarrow> tid list \<Rightarrow> tid \<Rightarrow> kstate" where
  "held_by h q cur =
     fresh\<lparr>curthr := Some cur,
           mtx := \<lparr>km_waitq = \<lparr>tq_list = q, tq_size = int (length q)\<rparr>, km_holder = Some h\<rparr>\<rparr>"

subsection \<open>Locking a free mutex\<close>

lemma kmutex_lock_free_eq:
  assumes "curthr s = Some t" and "km_holder (mtx s) = None"
  shows "kmutex_lock s = Return () (s\<lparr>mtx := (mtx s)\<lparr>km_holder := Some t\<rparr>\<rparr>)"
  using assms by (simp add: kmutex_lock_def kmutex_lock_resume_def)

text \<open>
  C4. A valid thread that calls \<^verbatim>\<open>kmutex_lock\<close> on a free mutex returns at once: the
  outcome is a return and not a switch, the only change to memory is that the holder is
  now the caller, so the run queue, the wait queue and every thread control block are as
  they were.
\<close>

theorem kmutex_lock_free_claims_synchronously:
  assumes "curthr s = Some t" and "km_holder (mtx s) = None"
  shows "kmutex_lock s = Return () (s\<lparr>mtx := (mtx s)\<lparr>km_holder := Some t\<rparr>\<rparr>)
       \<and> (\<forall>s'. kmutex_lock s \<noteq> Switch s')
       \<and> (\<forall>r s'. kmutex_lock s = Return r s' \<longrightarrow>
            km_holder (mtx s') = Some t \<and> runq s' = runq s \<and> threads s' = threads s
            \<and> km_waitq (mtx s') = km_waitq (mtx s) \<and> curthr s' = curthr s)"
  using assms by (simp add: kmutex_lock_free_eq)

theorem kmutex_lock_free_claims_synchronously_witness:
  "curthr (fresh\<lparr>curthr := Some 1\<rparr>) = Some 1
   \<and> km_holder (mtx (fresh\<lparr>curthr := Some 1\<rparr>)) = None
   \<and> kmutex_lock (fresh\<lparr>curthr := Some 1\<rparr>) = Return () (held_by 1 [] 1)
   \<and> (\<forall>s'. kmutex_lock (fresh\<lparr>curthr := Some 1\<rparr>) \<noteq> Switch s')"
  using kmutex_lock_free_claims_synchronously [of "fresh\<lparr>curthr := Some 1\<rparr>" 1]
  by (simp add: fresh_def held_by_def)

subsection \<open>Unlocking\<close>

lemma kmutex_unlock_empty:
  assumes "curthr s = Some t" and "km_holder (mtx s) = Some t"
    and "tq_size (km_waitq (mtx s)) = 0"
  shows "kmutex_unlock s = Inr (s\<lparr>mtx := (mtx s)\<lparr>km_holder := None\<rparr>\<rparr>)"
  using assms by (simp add: kmutex_unlock_def kmutex_unlock_body_def)

lemma kmutex_unlock_handoff:
  assumes "curthr s = Some t" and "km_holder (mtx s) = Some t"
    and "tq_size (km_waitq (mtx s)) \<noteq> 0"
    and "tq_list (km_waitq (mtx s)) = w # rest" and "w \<noteq> t"
  shows "kmutex_unlock s =
           Inr (s\<lparr>mtx := (mtx s)\<lparr>km_waitq := (km_waitq (mtx s))
                        \<lparr>tq_list := rest, tq_size := tq_size (km_waitq (mtx s)) - 1\<rparr>,
                      km_holder := Some w\<rparr>,
                  threads := (threads s)(w := (threads s w)\<lparr>kt_state := KT_RUN\<rparr>),
                  runq := runq s @ [w]\<rparr>)"
  using assms
  by (simp add: kmutex_unlock_def kmutex_unlock_body_def ktqueue_dequeue_def
      sched_make_runnable_def)

lemma kmutex_unlock_returns_not_holder:
  assumes "kmutex_unlock s = Inr s'"
  shows "curthr s' \<noteq> km_holder (mtx s')"
  using assms
  by (simp add: kmutex_unlock_def split: if_splits sum.splits)

lemma kmutex_unlock_curthr:
  assumes "kmutex_unlock s = Inr s'"
  shows "curthr s' = curthr s"
  using assms
  by (auto simp: kmutex_unlock_def kmutex_unlock_body_def ktqueue_dequeue_def
      sched_make_runnable_def split: if_splits sum.splits list.splits)

text \<open>
  C1. The caller holds the mutex, the count of the wait queue is the number of threads
  linked on it and the holder is not among them (the invariants of the data model). If
  the wait queue is empty, unlock leaves the mutex free and changes nothing else. If it
  holds \<open>w\<close> followed by \<open>rest\<close>, unlock returns with \<open>w\<close> installed as holder in the
  same step, the state of \<open>w\<close> set to \<^verbatim>\<open>KT_RUN\<close>, \<open>w\<close> appended to the scheduler's run
  queue, the count one less, and \<open>rest\<close> left on the queue in its order; no other thread
  control block changes.
\<close>

theorem kmutex_unlock_behaviour:
  assumes "curthr s = Some t" and "km_holder (mtx s) = Some t"
    and "waitq_ok s" and "t \<notin> set (waiters s)"
  shows "(waiters s = [] \<longrightarrow> kmutex_unlock s = Inr (s\<lparr>mtx := (mtx s)\<lparr>km_holder := None\<rparr>\<rparr>))
       \<and> (\<forall>w rest. waiters s = w # rest \<longrightarrow>
            (\<exists>s'. kmutex_unlock s = Inr s'
                \<and> km_holder (mtx s') = Some w
                \<and> waiters s' = rest
                \<and> tq_size (km_waitq (mtx s')) = tq_size (km_waitq (mtx s)) - 1
                \<and> kt_state (threads s' w) = KT_RUN
                \<and> runq s' = runq s @ [w]
                \<and> kt_cancelled (threads s' w) = kt_cancelled (threads s w)
                \<and> (\<forall>u. u \<noteq> w \<longrightarrow> threads s' u = threads s u)
                \<and> curthr s' = curthr s))"
proof (intro conjI allI impI)
  assume "waiters s = []"
  with assms(3) have "tq_size (km_waitq (mtx s)) = 0"
    by (simp add: waitq_ok_def waiters_def)
  with assms(1,2) show "kmutex_unlock s = Inr (s\<lparr>mtx := (mtx s)\<lparr>km_holder := None\<rparr>\<rparr>)"
    by (rule kmutex_unlock_empty)
next
  fix w rest
  assume q: "waiters s = w # rest"
  with assms(3) have n: "tq_size (km_waitq (mtx s)) \<noteq> 0"
    by (simp add: waitq_ok_def waiters_def)
  from q assms(4) have "w \<noteq> t" by auto
  with assms(1,2) n q show "\<exists>s'. kmutex_unlock s = Inr s'
                \<and> km_holder (mtx s') = Some w
                \<and> waiters s' = rest
                \<and> tq_size (km_waitq (mtx s')) = tq_size (km_waitq (mtx s)) - 1
                \<and> kt_state (threads s' w) = KT_RUN
                \<and> runq s' = runq s @ [w]
                \<and> kt_cancelled (threads s' w) = kt_cancelled (threads s w)
                \<and> (\<forall>u. u \<noteq> w \<longrightarrow> threads s' u = threads s u)
                \<and> curthr s' = curthr s"
    by (simp add: kmutex_unlock_handoff waiters_def)
qed

theorem kmutex_unlock_behaviour_witness:
  "kmutex_unlock (held_by 1 [] 1) = Inr ((held_by 1 [] 1)\<lparr>mtx := (mtx (held_by 1 [] 1))\<lparr>km_holder := None\<rparr>\<rparr>)
   \<and> (\<exists>s'. kmutex_unlock (held_by 1 [2, 3] 1) = Inr s'
          \<and> km_holder (mtx s') = Some 2 \<and> waiters s' = [3]
          \<and> tq_size (km_waitq (mtx s')) = 1
          \<and> kt_state (threads s' 2) = KT_RUN \<and> runq s' = [2])"
  using kmutex_unlock_behaviour [of "held_by 1 [] 1" 1]
    kmutex_unlock_behaviour [of "held_by 1 [2, 3] 1" 1]
  by (auto simp: held_by_def fresh_def waitq_ok_def waiters_def)

text \<open>
  C7. The caller holds the mutex and is not linked on the mutex's own wait queue.
  Whenever unlock returns, the caller is not the holder: the mutex is free, or its
  holder is the thread that was at the head of the wait queue, which is not the caller.
  And unlock does return when the count of the wait queue is right.
\<close>

theorem kmutex_unlock_caller_not_holder:
  assumes "curthr s = Some t" and "km_holder (mtx s) = Some t"
    and "t \<notin> set (waiters s)"
  shows "(waitq_ok s \<longrightarrow> (\<exists>s'. kmutex_unlock s = Inr s'))
       \<and> (\<forall>s'. kmutex_unlock s = Inr s' \<longrightarrow>
             km_holder (mtx s') \<noteq> Some t
             \<and> (km_holder (mtx s') = None
                \<or> (\<exists>w rest. waiters s = w # rest \<and> w \<noteq> t
                      \<and> km_holder (mtx s') = Some w \<and> waiters s' = rest)))"
proof (intro conjI allI impI)
  assume ok: "waitq_ok s"
  show "\<exists>s'. kmutex_unlock s = Inr s'"
  proof (cases "waiters s")
    case Nil
    with ok have "tq_size (km_waitq (mtx s)) = 0"
      by (simp add: waitq_ok_def waiters_def)
    with assms(1,2) show ?thesis
      by (simp add: kmutex_unlock_empty)
  next
    case (Cons w rest)
    with ok have "tq_size (km_waitq (mtx s)) \<noteq> 0"
      by (simp add: waitq_ok_def waiters_def)
    moreover from Cons assms(3) have "w \<noteq> t" by auto
    ultimately show ?thesis
      using assms(1,2) Cons by (simp add: kmutex_unlock_handoff waiters_def)
  qed
next
  fix s'
  assume ret: "kmutex_unlock s = Inr s'"
  have "curthr s' \<noteq> km_holder (mtx s')"
    using ret by (rule kmutex_unlock_returns_not_holder)
  moreover have "curthr s' = Some t"
    using ret assms(1) by (simp add: kmutex_unlock_curthr)
  ultimately show "km_holder (mtx s') \<noteq> Some t"
    by simp
  show "km_holder (mtx s') = None
        \<or> (\<exists>w rest. waiters s = w # rest \<and> w \<noteq> t
              \<and> km_holder (mtx s') = Some w \<and> waiters s' = rest)"
    using ret assms
    by (auto simp: kmutex_unlock_def kmutex_unlock_body_def ktqueue_dequeue_def
        sched_make_runnable_def waiters_def split: if_splits list.splits)
qed

theorem kmutex_unlock_caller_not_holder_witness:
  "curthr (held_by 1 [2, 3] 1) = Some 1 \<and> km_holder (mtx (held_by 1 [2, 3] 1)) = Some 1
   \<and> 1 \<notin> set (waiters (held_by 1 [2, 3] 1)) \<and> waitq_ok (held_by 1 [2, 3] 1)
   \<and> (\<exists>s'. kmutex_unlock (held_by 1 [2, 3] 1) = Inr s' \<and> km_holder (mtx s') \<noteq> Some 1
          \<and> km_holder (mtx s') = Some 2 \<and> waiters s' = [3])"
  using kmutex_unlock_caller_not_holder [of "held_by 1 [2, 3] 1" 1]
  by (auto simp: held_by_def fresh_def waitq_ok_def waiters_def kmutex_unlock_def
      kmutex_unlock_body_def ktqueue_dequeue_def sched_make_runnable_def)

subsection \<open>Contract violations\<close>

text \<open>
  C6. A lock or a cancellable lock by the thread that already holds the mutex, and an
  unlock by a thread that does not hold it, fail the precondition assertion: the
  operation halts there and hands back no memory, so nothing of the mutex is changed.
  The same happens when there is no current thread.
\<close>

theorem contract_violations_halt:
  "(curthr s = None \<or> curthr s = km_holder (mtx s) \<longrightarrow>
      kmutex_lock s = Panic Assertion_failed
      \<and> kmutex_lock_cancellable s = Panic Assertion_failed)
   \<and> (curthr s = None \<or> curthr s \<noteq> km_holder (mtx s) \<longrightarrow>
      kmutex_unlock s = Inl Assertion_failed)"
  by (auto simp: kmutex_lock_def kmutex_lock_cancellable_def kmutex_unlock_def
      split: option.splits)

theorem contract_violations_halt_witness:
  "curthr (held_by 1 [] 1) = km_holder (mtx (held_by 1 [] 1))
   \<and> kmutex_lock (held_by 1 [] 1) = Panic Assertion_failed
   \<and> kmutex_lock_cancellable (held_by 1 [] 1) = Panic Assertion_failed
   \<and> curthr (held_by 1 [] 2) \<noteq> km_holder (mtx (held_by 1 [] 2))
   \<and> kmutex_unlock (held_by 1 [] 2) = Inl Assertion_failed"
  using contract_violations_halt [of "held_by 1 [] 1"]
    contract_violations_halt [of "held_by 1 [] 2"]
  by (simp add: held_by_def fresh_def)

subsection \<open>Lock, then unlock\<close>

text \<open>
  C8. On a mutex in its initial state (empty wait queue, count zero, no holder), a lock
  by a thread returns with that thread as holder, and the unlock by the same thread that
  follows returns the whole memory, the mutex in particular, to what it was.
\<close>

theorem lock_unlock_roundtrip:
  assumes "curthr s = Some t"
  shows "\<exists>s1. kmutex_lock (kmutex_init s) = Return () s1
            \<and> km_holder (mtx s1) = Some t
            \<and> kmutex_unlock s1 = Inr (kmutex_init s)"
proof -
  let ?i = "kmutex_init s"
  let ?s1 = "?i\<lparr>mtx := (mtx ?i)\<lparr>km_holder := Some t\<rparr>\<rparr>"
  have "kmutex_lock ?i = Return () ?s1"
    using assms by (simp add: kmutex_lock_free_eq kmutex_init_def)
  moreover have "kmutex_unlock ?s1 = Inr (?s1\<lparr>mtx := (mtx ?s1)\<lparr>km_holder := None\<rparr>\<rparr>)"
    using assms by (simp add: kmutex_unlock_empty kmutex_init_def)
  moreover have "?s1\<lparr>mtx := (mtx ?s1)\<lparr>km_holder := None\<rparr>\<rparr> = ?i"
    by (simp add: kmutex_init_def)
  ultimately show ?thesis
    by simp
qed

theorem lock_unlock_roundtrip_witness:
  "curthr (fresh\<lparr>curthr := Some 1\<rparr>) = Some 1
   \<and> (\<exists>s1. kmutex_lock (kmutex_init (fresh\<lparr>curthr := Some 1\<rparr>)) = Return () s1
          \<and> km_holder (mtx s1) = Some 1
          \<and> kmutex_unlock s1 = Inr (kmutex_init (fresh\<lparr>curthr := Some 1\<rparr>)))
   \<and> mtx (kmutex_init (fresh\<lparr>curthr := Some 1\<rparr>))
       = \<lparr>km_waitq = \<lparr>tq_list = [], tq_size = 0\<rparr>, km_holder = None\<rparr>"
  using lock_unlock_roundtrip [of "fresh\<lparr>curthr := Some 1\<rparr>" 1]
  by (simp add: fresh_def kmutex_init_def)

subsection \<open>The two lock operations\<close>

lemma kmutex_lock_held_eq:
  assumes "curthr s = Some t" and "km_holder (mtx s) \<noteq> Some t" and "km_holder (mtx s) \<noteq> None"
  shows "kmutex_lock s = Switch (blocked t KT_SLEEP s)"
  using assms by (auto simp: kmutex_lock_def blocked_def ktqueue_enqueue_def)

lemma kmutex_lock_cancellable_held_eq:
  assumes "curthr s = Some t" and "km_holder (mtx s) \<noteq> Some t" and "km_holder (mtx s) \<noteq> None"
  shows "kmutex_lock_cancellable s = Switch (blocked t KT_SLEEP_CANCELLABLE s)"
  using assms by (auto simp: kmutex_lock_cancellable_def blocked_def ktqueue_enqueue_def)

lemma kmutex_lock_cancellable_free_eq:
  assumes "curthr s = Some t" and "km_holder (mtx s) = None"
  shows "kmutex_lock_cancellable s = kmutex_lock_cancellable_resume (claimed t s)"
  using assms by (simp add: kmutex_lock_cancellable_def claimed_def)

lemma kmutex_lock_resume_granted:
  assumes "curthr r = Some t" and "km_holder (mtx r) = Some t"
  shows "kmutex_lock_resume r = Return () r"
  using assms by (simp add: kmutex_lock_resume_def)

lemma kmutex_lock_cancellable_resume_clear:
  assumes "curthr r = Some t" and "km_holder (mtx r) = Some t"
    and "kt_cancelled (threads r t) = 0"
  shows "kmutex_lock_cancellable_resume r = Return 0 r"
  using assms by (simp add: kmutex_lock_cancellable_resume_def)

lemma kmutex_lock_cancellable_resume_cancelled:
  assumes "curthr r = Some t" and "km_holder (mtx r) = Some t"
    and "kt_cancelled (threads r t) \<noteq> 0" and "kmutex_unlock r = Inr r'"
  shows "kmutex_lock_cancellable_resume r = Return (- EINTR) r'"
  using assms by (simp add: kmutex_lock_cancellable_resume_def)

lemma kmutex_unlock_total:
  assumes "curthr r = Some t" and "km_holder (mtx r) = Some t"
    and "waitq_ok r" and "t \<notin> set (waiters r)"
  shows "\<exists>r'. kmutex_unlock r = Inr r' \<and> km_holder (mtx r') \<noteq> Some t"
proof (cases "waiters r")
  case Nil
  with assms(3) have "tq_size (km_waitq (mtx r)) = 0"
    by (simp add: waitq_ok_def waiters_def)
  with assms(1,2) show ?thesis
    by (simp add: kmutex_unlock_empty)
next
  case (Cons w rest)
  with assms(3) have "tq_size (km_waitq (mtx r)) \<noteq> 0"
    by (simp add: waitq_ok_def waiters_def)
  moreover from Cons assms(4) have "w \<noteq> t" by auto
  ultimately show ?thesis
    using assms(1,2) Cons by (simp add: kmutex_unlock_handoff waiters_def)
qed

text \<open>
  C2. A thread that does not hold the mutex calls the cancellable lock. On a free mutex
  both lock operations claim it and go on to the end of their bodies; on a held mutex
  both put the caller on the tail of the wait queue and switch, the plain lock in state
  \<^verbatim>\<open>KT_SLEEP\<close>, the cancellable one in state \<^verbatim>\<open>KT_SLEEP_CANCELLABLE\<close>, with nothing
  else different. When the end of the body runs with the mutex granted to the caller
  (right after the claim, or after a hand-off) and the invariants of the data model
  hold, a caller whose cancelled flag is set gets \<^verbatim>\<open>-EINTR\<close>, which is not 0, in the
  memory that \<^verbatim>\<open>kmutex_unlock\<close> returned, where the caller is not the holder; a caller
  whose flag is clear gets 0 with the memory unchanged. Every return of the end of the
  body is of one of these two kinds.
\<close>

theorem kmutex_lock_cancellable_behaviour:
  assumes "curthr s = Some t" and "km_holder (mtx s) \<noteq> Some t"
  shows "(km_holder (mtx s) = None \<longrightarrow>
            kmutex_lock s = kmutex_lock_resume (claimed t s)
            \<and> kmutex_lock_cancellable s = kmutex_lock_cancellable_resume (claimed t s))
       \<and> (km_holder (mtx s) \<noteq> None \<longrightarrow>
            kmutex_lock s = Switch (blocked t KT_SLEEP s)
            \<and> kmutex_lock_cancellable s = Switch (blocked t KT_SLEEP_CANCELLABLE s))
       \<and> (\<forall>r. curthr r = Some t \<and> km_holder (mtx r) = Some t
              \<and> waitq_ok r \<and> t \<notin> set (waiters r) \<longrightarrow>
            (if kt_cancelled (threads r t) \<noteq> 0
             then \<exists>r'. kmutex_unlock r = Inr r'
                    \<and> kmutex_lock_cancellable_resume r = Return (- EINTR) r'
                    \<and> km_holder (mtx r') \<noteq> Some t \<and> - EINTR \<noteq> 0
             else kmutex_lock_cancellable_resume r = Return 0 r))
       \<and> (\<forall>r v r'. curthr r = Some t \<and> kmutex_lock_cancellable_resume r = Return v r' \<longrightarrow>
            (if kt_cancelled (threads r t) \<noteq> 0
             then v = - EINTR \<and> kmutex_unlock r = Inr r' \<and> km_holder (mtx r') \<noteq> Some t
             else v = 0 \<and> r' = r \<and> km_holder (mtx r') = Some t))"
proof (intro conjI allI impI)
  assume "km_holder (mtx s) = None"
  with assms(1) show "kmutex_lock s = kmutex_lock_resume (claimed t s)"
    by (simp add: kmutex_lock_def claimed_def)
next
  assume "km_holder (mtx s) = None"
  with assms(1) show "kmutex_lock_cancellable s = kmutex_lock_cancellable_resume (claimed t s)"
    by (rule kmutex_lock_cancellable_free_eq)
next
  assume "km_holder (mtx s) \<noteq> None"
  with assms show "kmutex_lock s = Switch (blocked t KT_SLEEP s)"
    by (simp add: kmutex_lock_held_eq)
next
  assume "km_holder (mtx s) \<noteq> None"
  with assms show "kmutex_lock_cancellable s = Switch (blocked t KT_SLEEP_CANCELLABLE s)"
    by (simp add: kmutex_lock_cancellable_held_eq)
next
  fix r
  assume r: "curthr r = Some t \<and> km_holder (mtx r) = Some t
             \<and> waitq_ok r \<and> t \<notin> set (waiters r)"
  show "if kt_cancelled (threads r t) \<noteq> 0
        then \<exists>r'. kmutex_unlock r = Inr r'
               \<and> kmutex_lock_cancellable_resume r = Return (- EINTR) r'
               \<and> km_holder (mtx r') \<noteq> Some t \<and> - EINTR \<noteq> 0
        else kmutex_lock_cancellable_resume r = Return 0 r"
  proof (cases "kt_cancelled (threads r t) = 0")
    case True
    with r show ?thesis
      by (simp add: kmutex_lock_cancellable_resume_clear)
  next
    case False
    from r obtain r' where u: "kmutex_unlock r = Inr r'" and h: "km_holder (mtx r') \<noteq> Some t"
      using kmutex_unlock_total by blast
    from r False u have "kmutex_lock_cancellable_resume r = Return (- EINTR) r'"
      by (simp add: kmutex_lock_cancellable_resume_cancelled)
    with False u h show ?thesis
      by (simp add: EINTR_def)
  qed
next
  fix r v r'
  assume a: "curthr r = Some t \<and> kmutex_lock_cancellable_resume r = Return v r'"
  then have h: "km_holder (mtx r) = Some t"
    by (auto simp: kmutex_lock_cancellable_resume_def split: if_splits)
  show "if kt_cancelled (threads r t) \<noteq> 0
        then v = - EINTR \<and> kmutex_unlock r = Inr r' \<and> km_holder (mtx r') \<noteq> Some t
        else v = 0 \<and> r' = r \<and> km_holder (mtx r') = Some t"
  proof (cases "kt_cancelled (threads r t) = 0")
    case True
    with a h show ?thesis
      by (auto simp: kmutex_lock_cancellable_resume_def)
  next
    case False
    with a h have u: "kmutex_unlock r = Inr r'" and v: "v = - EINTR"
      by (auto simp: kmutex_lock_cancellable_resume_def split: sum.splits)
    from u have "curthr r' \<noteq> km_holder (mtx r')"
      by (rule kmutex_unlock_returns_not_holder)
    moreover from u a have "curthr r' = Some t"
      by (simp add: kmutex_unlock_curthr)
    ultimately show ?thesis
      using False u v by simp
  qed
qed

theorem kmutex_lock_cancellable_behaviour_witness:
  "curthr (with_cancelled 2 1 (held_by 1 [] 2)) = Some 2
   \<and> km_holder (mtx (with_cancelled 2 1 (held_by 1 [] 2))) \<noteq> Some 2
   \<and> kmutex_lock_cancellable (with_cancelled 2 1 (held_by 1 [] 2))
       = Switch (blocked 2 KT_SLEEP_CANCELLABLE (with_cancelled 2 1 (held_by 1 [] 2)))
   \<and> kmutex_lock (with_cancelled 2 1 (held_by 1 [] 2))
       = Switch (blocked 2 KT_SLEEP (with_cancelled 2 1 (held_by 1 [] 2)))
   \<and> kt_cancelled (threads (with_cancelled 2 1 (held_by 2 [3] 2)) 2) \<noteq> 0
   \<and> (\<exists>r'. kmutex_unlock (with_cancelled 2 1 (held_by 2 [3] 2)) = Inr r'
          \<and> kmutex_lock_cancellable_resume (with_cancelled 2 1 (held_by 2 [3] 2))
              = Return (- EINTR) r'
          \<and> km_holder (mtx r') \<noteq> Some 2)
   \<and> kmutex_lock_cancellable_resume (held_by 2 [3] 2) = Return 0 (held_by 2 [3] 2)
   \<and> km_holder (mtx (fresh\<lparr>curthr := Some 2\<rparr>)) = None
   \<and> kmutex_lock_cancellable (fresh\<lparr>curthr := Some 2\<rparr>) = Return 0 (held_by 2 [] 2)"
proof -
  let ?s = "with_cancelled 2 1 (held_by 1 [] 2)"
  let ?f = "fresh\<lparr>curthr := Some 2\<rparr>"
  have free: "curthr ?f = Some 2" "km_holder (mtx ?f) \<noteq> Some 2" "km_holder (mtx ?f) = None"
    by (simp_all add: fresh_def)
  have "kmutex_lock_cancellable ?f = kmutex_lock_cancellable_resume (claimed 2 ?f)"
    using kmutex_lock_cancellable_behaviour [OF free(1,2)] free(3) by blast
  moreover have "claimed 2 ?f = held_by 2 [] 2"
    by (simp add: claimed_def held_by_def fresh_def)
  moreover have "kmutex_lock_cancellable_resume (held_by 2 [] 2) = Return 0 (held_by 2 [] 2)"
    using kmutex_lock_cancellable_behaviour [OF free(1,2), THEN conjunct2, THEN conjunct2,
        THEN conjunct1, rule_format, of "held_by 2 [] 2"]
    by (simp add: held_by_def fresh_def waitq_ok_def waiters_def)
  ultimately have claim: "kmutex_lock_cancellable ?f = Return 0 (held_by 2 [] 2)"
    by simp
  have pre: "curthr ?s = Some 2" "km_holder (mtx ?s) \<noteq> Some 2" "km_holder (mtx ?s) \<noteq> None"
    by (simp_all add: held_by_def fresh_def with_cancelled_def)
  note th = kmutex_lock_cancellable_behaviour [OF pre(1,2)]
  note blk = th [THEN conjunct2, THEN conjunct1, rule_format, OF pre(3)]
  note res = th [THEN conjunct2, THEN conjunct2, THEN conjunct1, rule_format]
  have set: "\<exists>r'. kmutex_unlock (with_cancelled 2 1 (held_by 2 [3] 2)) = Inr r'
          \<and> kmutex_lock_cancellable_resume (with_cancelled 2 1 (held_by 2 [3] 2))
              = Return (- EINTR) r'
          \<and> km_holder (mtx r') \<noteq> Some 2"
    using res [of "with_cancelled 2 1 (held_by 2 [3] 2)"]
    by (auto simp: held_by_def fresh_def with_cancelled_def waitq_ok_def waiters_def)
  have clear: "kmutex_lock_cancellable_resume (held_by 2 [3] 2) = Return 0 (held_by 2 [3] 2)"
    using res [of "held_by 2 [3] 2"]
    by (simp add: held_by_def fresh_def waitq_ok_def waiters_def)
  have flag: "kt_cancelled (threads (with_cancelled 2 1 (held_by 2 [3] 2)) 2) \<noteq> 0"
    by (simp add: with_cancelled_def)
  from pre(1,2) blk set clear flag free(3) claim show ?thesis
    by simp
qed

subsection \<open>The cancelled flag\<close>

lemma kmutex_unlock_cancelled:
  assumes "kmutex_unlock s = Inr s'"
  shows "kt_cancelled (threads s' u) = kt_cancelled (threads s u)"
  using assms
  by (auto simp: kmutex_unlock_def kmutex_unlock_body_def ktqueue_dequeue_def
      sched_make_runnable_def split: if_splits sum.splits list.splits)

lemma kmutex_lock_cancelled:
  assumes "final (kmutex_lock s) = Some s'"
  shows "kt_cancelled (threads s' u) = kt_cancelled (threads s u)"
  using assms
  by (auto simp: final_def kmutex_lock_def kmutex_lock_resume_def
      split: option.splits if_splits)

lemma kmutex_lock_resume_cancelled:
  assumes "final (kmutex_lock_resume s) = Some s'"
  shows "kt_cancelled (threads s' u) = kt_cancelled (threads s u)"
  using assms
  by (auto simp: final_def kmutex_lock_resume_def split: if_splits)

lemma kmutex_lock_cancellable_resume_flag:
  assumes "final (kmutex_lock_cancellable_resume s) = Some s'"
  shows "kt_cancelled (threads s' u) = kt_cancelled (threads s u)"
  using assms
  by (auto simp: final_def kmutex_lock_cancellable_resume_def kmutex_unlock_cancelled
      split: option.splits if_splits sum.splits)

lemma kmutex_lock_cancellable_flag:
  assumes "final (kmutex_lock_cancellable s) = Some s'"
  shows "kt_cancelled (threads s' u) = kt_cancelled (threads s u)"
proof (cases "\<exists>t. curthr s = Some t \<and> km_holder (mtx s) = None")
  case True
  then obtain t where t: "curthr s = Some t" "km_holder (mtx s) = None"
    by blast
  then have "kmutex_lock_cancellable s = kmutex_lock_cancellable_resume (claimed t s)"
    by (rule kmutex_lock_cancellable_free_eq)
  with assms have "kt_cancelled (threads s' u) = kt_cancelled (threads (claimed t s) u)"
    by (simp add: kmutex_lock_cancellable_resume_flag)
  then show ?thesis
    by (simp add: claimed_def)
next
  case False
  with assms show ?thesis
    by (auto simp: final_def kmutex_lock_cancellable_def split: option.splits if_splits)
qed

lemma kmutex_lock_cancellable_free_cancelled:
  assumes "curthr s = Some t" and "kt_cancelled (threads s t) \<noteq> 0"
    and "km_holder (mtx s) = None" and "tq_size (km_waitq (mtx s)) = 0"
  shows "kmutex_lock_cancellable s = Return (- EINTR) s"
proof -
  let ?c = "claimed t s"
  have "kmutex_unlock ?c = Inr (?c\<lparr>mtx := (mtx ?c)\<lparr>km_holder := None\<rparr>\<rparr>)"
    using assms by (simp add: kmutex_unlock_empty claimed_def)
  moreover have "?c\<lparr>mtx := (mtx ?c)\<lparr>km_holder := None\<rparr>\<rparr> = s"
    using assms(3) by (simp add: claimed_def)
  ultimately have "kmutex_unlock ?c = Inr s"
    by simp
  then have "kmutex_lock_cancellable_resume ?c = Return (- EINTR) s"
    using assms by (simp add: kmutex_lock_cancellable_resume_cancelled claimed_def)
  then show ?thesis
    using assms by (simp add: kmutex_lock_cancellable_free_eq)
qed

text \<open>
  C9. Whatever memory an operation of the mutex leaves behind (by returning or by
  switching), every thread's cancelled flag is what it was before. A cancellable lock by
  a thread whose flag is set can return nothing but \<^verbatim>\<open>-EINTR\<close>, with the flag still
  set; on a free mutex with an empty wait queue it does return \<^verbatim>\<open>-EINTR\<close> and leaves
  the whole memory as it found it, so the next call does the same.
\<close>

theorem cancelled_flag_untouched:
  "(\<forall>s' u. final (kmutex_lock s) = Some s' \<or> final (kmutex_lock_resume s) = Some s'
          \<or> final (kmutex_lock_cancellable s) = Some s'
          \<or> final (kmutex_lock_cancellable_resume s) = Some s'
          \<or> kmutex_unlock s = Inr s' \<or> kmutex_init s = s' \<longrightarrow>
        kt_cancelled (threads s' u) = kt_cancelled (threads s u))
   \<and> (\<forall>t v s'. curthr s = Some t \<and> kt_cancelled (threads s t) \<noteq> 0
          \<and> (kmutex_lock_cancellable s = Return v s'
             \<or> kmutex_lock_cancellable_resume s = Return v s') \<longrightarrow>
        v = - EINTR \<and> kt_cancelled (threads s' t) \<noteq> 0)
   \<and> (\<forall>t. curthr s = Some t \<and> kt_cancelled (threads s t) \<noteq> 0
          \<and> km_holder (mtx s) = None \<and> tq_size (km_waitq (mtx s)) = 0 \<longrightarrow>
        kmutex_lock_cancellable s = Return (- EINTR) s)"
proof (intro conjI allI impI)
  fix s' u
  assume "final (kmutex_lock s) = Some s' \<or> final (kmutex_lock_resume s) = Some s'
          \<or> final (kmutex_lock_cancellable s) = Some s'
          \<or> final (kmutex_lock_cancellable_resume s) = Some s'
          \<or> kmutex_unlock s = Inr s' \<or> kmutex_init s = s'"
  then show "kt_cancelled (threads s' u) = kt_cancelled (threads s u)"
    using kmutex_lock_cancelled kmutex_lock_resume_cancelled kmutex_lock_cancellable_flag
      kmutex_lock_cancellable_resume_flag kmutex_unlock_cancelled
    by (auto simp: kmutex_init_def)
next
  fix t v s'
  assume a: "curthr s = Some t \<and> kt_cancelled (threads s t) \<noteq> 0
          \<and> (kmutex_lock_cancellable s = Return v s'
             \<or> kmutex_lock_cancellable_resume s = Return v s')"
  have res: "v = - EINTR" if "curthr r = Some t" "kt_cancelled (threads r t) \<noteq> 0"
    "kmutex_lock_cancellable_resume r = Return v s'" for r
    using that
    by (auto simp: kmutex_lock_cancellable_resume_def split: if_splits sum.splits)
  from a show "v = - EINTR"
  proof (elim conjE disjE)
    assume c: "curthr s = Some t" "kt_cancelled (threads s t) \<noteq> 0"
      and r: "kmutex_lock_cancellable s = Return v s'"
    then have "km_holder (mtx s) = None"
      by (auto simp: kmutex_lock_cancellable_def split: if_splits)
    with c r have "kmutex_lock_cancellable_resume (claimed t s) = Return v s'"
      by (simp add: kmutex_lock_cancellable_free_eq)
    with c show ?thesis
      using res [of "claimed t s"] by (simp add: claimed_def)
  next
    assume "curthr s = Some t" "kt_cancelled (threads s t) \<noteq> 0"
      "kmutex_lock_cancellable_resume s = Return v s'"
    then show ?thesis
      by (rule res)
  qed
  from a have "final (kmutex_lock_cancellable s) = Some s'
               \<or> final (kmutex_lock_cancellable_resume s) = Some s'"
    by (auto simp: final_def)
  then have "kt_cancelled (threads s' t) = kt_cancelled (threads s t)"
    using kmutex_lock_cancellable_flag kmutex_lock_cancellable_resume_flag by blast
  with a show "kt_cancelled (threads s' t) \<noteq> 0"
    by simp
next
  fix t
  assume "curthr s = Some t \<and> kt_cancelled (threads s t) \<noteq> 0
          \<and> km_holder (mtx s) = None \<and> tq_size (km_waitq (mtx s)) = 0"
  then show "kmutex_lock_cancellable s = Return (- EINTR) s"
    by (simp add: kmutex_lock_cancellable_free_cancelled)
qed

theorem cancelled_flag_untouched_witness:
  "curthr (with_cancelled 1 1 (fresh\<lparr>curthr := Some 1\<rparr>)) = Some 1
   \<and> kt_cancelled (threads (with_cancelled 1 1 (fresh\<lparr>curthr := Some 1\<rparr>)) 1) \<noteq> 0
   \<and> km_holder (mtx (with_cancelled 1 1 (fresh\<lparr>curthr := Some 1\<rparr>))) = None
   \<and> kmutex_lock_cancellable (with_cancelled 1 1 (fresh\<lparr>curthr := Some 1\<rparr>))
       = Return (- EINTR) (with_cancelled 1 1 (fresh\<lparr>curthr := Some 1\<rparr>))
   \<and> (\<exists>s'. kmutex_unlock (with_cancelled 2 1 (held_by 1 [2] 1)) = Inr s'
          \<and> km_holder (mtx s') = Some 2 \<and> kt_cancelled (threads s' 2) = 1)"
proof -
  let ?s = "with_cancelled 1 1 (fresh\<lparr>curthr := Some 1\<rparr>)"
  let ?u = "with_cancelled 2 1 (held_by 1 [2] 1)"
  have pre: "curthr ?s = Some 1 \<and> kt_cancelled (threads ?s 1) \<noteq> 0
             \<and> km_holder (mtx ?s) = None \<and> tq_size (km_waitq (mtx ?s)) = 0"
    by (simp add: with_cancelled_def fresh_def)
  note again = cancelled_flag_untouched [of ?s, THEN conjunct2, THEN conjunct2, rule_format, OF pre]
  obtain s' where u: "kmutex_unlock ?u = Inr s'" and h: "km_holder (mtx s') = Some 2"
    by (simp add: kmutex_unlock_handoff [of _ 1 2 "[]"] with_cancelled_def held_by_def fresh_def)
  from u have "kt_cancelled (threads s' 2) = kt_cancelled (threads ?u 2)"
    using cancelled_flag_untouched [of ?u, THEN conjunct1, rule_format, of s' 2] by simp
  then have "kt_cancelled (threads s' 2) = 1"
    by (simp add: with_cancelled_def)
  with pre again u h show ?thesis
    by auto
qed

lemma with_cancelled_blocked:
  "blocked t st (with_cancelled u v s) = with_cancelled u v (blocked t st s)"
  by (auto simp: blocked_def with_cancelled_def fun_eq_iff)

text \<open>
  C10. The plain lock does not look at the cancelled flag: setting any thread's flag to
  any value before the call gives the same outcome, in the same memory with that flag
  set. In particular a caller whose flag is set claims a free mutex and returns; on a
  mutex held by another thread it goes to sleep on the wait queue with its flag
  unchanged; and once it is the holder, the end of the body returns without reporting
  anything.
\<close>

theorem kmutex_lock_ignores_cancelled:
  "kmutex_lock (with_cancelled u v s) = map_outcome (with_cancelled u v) (kmutex_lock s)
   \<and> kmutex_lock_resume (with_cancelled u v s)
       = map_outcome (with_cancelled u v) (kmutex_lock_resume s)
   \<and> (\<forall>t. curthr s = Some t \<and> kt_cancelled (threads s t) \<noteq> 0 \<longrightarrow>
         (km_holder (mtx s) = None \<longrightarrow> kmutex_lock s = Return () (claimed t s))
         \<and> (km_holder (mtx s) \<noteq> None \<and> km_holder (mtx s) \<noteq> Some t \<longrightarrow>
              kmutex_lock s = Switch (blocked t KT_SLEEP s)
              \<and> kt_cancelled (threads (blocked t KT_SLEEP s) t) = kt_cancelled (threads s t))
         \<and> (km_holder (mtx s) = Some t \<longrightarrow> kmutex_lock_resume s = Return () s))"
proof (intro conjI allI impI)
  show "kmutex_lock_resume (with_cancelled u v s)
        = map_outcome (with_cancelled u v) (kmutex_lock_resume s)"
    by (auto simp: kmutex_lock_resume_def map_outcome_def with_cancelled_def)
  show "kmutex_lock (with_cancelled u v s) = map_outcome (with_cancelled u v) (kmutex_lock s)"
  proof (cases "curthr s")
    case None
    then show ?thesis
      by (simp add: kmutex_lock_def map_outcome_def with_cancelled_def)
  next
    case (Some t)
    show ?thesis
    proof (cases "km_holder (mtx s) = Some t \<or> km_holder (mtx s) = None")
      case True
      with Some show ?thesis
        by (auto simp: kmutex_lock_def kmutex_lock_resume_def map_outcome_def with_cancelled_def)
    next
      case False
      with Some have "kmutex_lock s = Switch (blocked t KT_SLEEP s)"
        by (simp add: kmutex_lock_held_eq)
      moreover from False Some
      have "kmutex_lock (with_cancelled u v s) = Switch (blocked t KT_SLEEP (with_cancelled u v s))"
        by (simp add: kmutex_lock_held_eq with_cancelled_def)
      ultimately show ?thesis
        by (simp add: map_outcome_def with_cancelled_blocked)
    qed
  qed
next
  fix t
  assume "curthr s = Some t \<and> kt_cancelled (threads s t) \<noteq> 0" and "km_holder (mtx s) = None"
  then show "kmutex_lock s = Return () (claimed t s)"
    by (simp add: kmutex_lock_free_eq claimed_def)
next
  fix t
  assume "curthr s = Some t \<and> kt_cancelled (threads s t) \<noteq> 0"
    and "km_holder (mtx s) \<noteq> None \<and> km_holder (mtx s) \<noteq> Some t"
  then show "kmutex_lock s = Switch (blocked t KT_SLEEP s)"
    by (simp add: kmutex_lock_held_eq)
next
  fix t
  show "kt_cancelled (threads (blocked t KT_SLEEP s) t) = kt_cancelled (threads s t)"
    by (simp add: blocked_def)
next
  fix t
  assume "curthr s = Some t \<and> kt_cancelled (threads s t) \<noteq> 0" and "km_holder (mtx s) = Some t"
  then show "kmutex_lock_resume s = Return () s"
    by (simp add: kmutex_lock_resume_granted)
qed

theorem kmutex_lock_ignores_cancelled_witness:
  "kt_cancelled (threads (with_cancelled 2 1 (fresh\<lparr>curthr := Some 2\<rparr>)) 2) \<noteq> 0
   \<and> kmutex_lock (with_cancelled 2 1 (fresh\<lparr>curthr := Some 2\<rparr>))
       = Return () (claimed 2 (with_cancelled 2 1 (fresh\<lparr>curthr := Some 2\<rparr>)))
   \<and> kmutex_lock (with_cancelled 2 1 (held_by 1 [] 2))
       = Switch (blocked 2 KT_SLEEP (with_cancelled 2 1 (held_by 1 [] 2)))
   \<and> kmutex_lock_resume (with_cancelled 2 1 (held_by 2 [] 2))
       = Return () (with_cancelled 2 1 (held_by 2 [] 2))"
proof -
  let ?a = "with_cancelled 2 1 (fresh\<lparr>curthr := Some 2\<rparr>)"
  let ?b = "with_cancelled 2 1 (held_by 1 [] 2)"
  let ?c = "with_cancelled 2 1 (held_by 2 [] 2)"
  have "kmutex_lock ?a = Return () (claimed 2 ?a)"
    using kmutex_lock_ignores_cancelled [of 2 1 ?a, THEN conjunct2, THEN conjunct2, rule_format, of 2]
    by (simp add: with_cancelled_def fresh_def)
  moreover have "kmutex_lock ?b = Switch (blocked 2 KT_SLEEP ?b)"
    using kmutex_lock_ignores_cancelled [of 2 1 ?b, THEN conjunct2, THEN conjunct2, rule_format, of 2]
    by (simp add: with_cancelled_def held_by_def fresh_def)
  moreover have "kmutex_lock_resume ?c = Return () ?c"
    using kmutex_lock_ignores_cancelled [of 2 1 ?c, THEN conjunct2, THEN conjunct2, rule_format, of 2]
    by (simp add: with_cancelled_def held_by_def fresh_def)
  ultimately show ?thesis
    by (simp add: with_cancelled_def)
qed

subsection \<open>Invariants of the system\<close>

lemma sys_inv_init: "sys_inv (sys_init s)"
  by (simp add: sys_inv_def sys_init_def kmutex_init_def waitq_ok_def waiters_def)

lemma settle_claimed:
  assumes inv: "sys_inv \<sigma>" and idle: "suspended \<sigma> t = None" "t \<notin> set (runq (kern \<sigma>))"
    and free: "km_holder (mtx (kern \<sigma>)) = None"
  shows "sys_inv (\<sigma>\<lparr>kern := claimed t ((kern \<sigma>)\<lparr>curthr := Some t\<rparr>),
                     suspended := (suspended \<sigma>)(t := None), owners := owners \<sigma> @ [t]\<rparr>)"
  using assms
  by (auto simp: sys_inv_def claimed_def waitq_ok_def waiters_def)

lemma settle_blocked:
  assumes inv: "sys_inv \<sigma>" and idle: "suspended \<sigma> t = None" "t \<notin> set (runq (kern \<sigma>))"
    and held: "km_holder (mtx (kern \<sigma>)) \<noteq> None" "km_holder (mtx (kern \<sigma>)) \<noteq> Some t"
  shows "sys_inv (\<sigma>\<lparr>kern := blocked t st ((kern \<sigma>)\<lparr>curthr := Some t\<rparr>),
                     suspended := (suspended \<sigma>)(t \<mapsto> k), arrived := arrived \<sigma> @ [t]\<rparr>)"
  using assms
  by (auto simp: sys_inv_def blocked_def waitq_ok_def waiters_def)


lemma sys_inv_dispatched:
  assumes "sys_inv \<sigma>" and "t \<in> set (runq (kern \<sigma>))"
  shows "sys_inv (\<sigma>\<lparr>kern := (kern \<sigma>)\<lparr>curthr := Some t, runq := removeAll t (runq (kern \<sigma>))\<rparr>,
                     suspended := (suspended \<sigma>)(t := None)\<rparr>)"
  using assms
  by (auto simp: sys_inv_def waitq_ok_def waiters_def)

lemma sys_inv_curthr:
  assumes "sys_inv \<sigma>"
  shows "sys_inv (\<sigma>\<lparr>kern := (kern \<sigma>)\<lparr>curthr := c\<rparr>\<rparr>)"
  using assms by (auto simp: sys_inv_def waitq_ok_def waiters_def)

lemma sys_inv_unlock:
  assumes inv: "sys_inv \<sigma>" and cur: "curthr (kern \<sigma>) = Some t"
    and hold: "km_holder (mtx (kern \<sigma>)) = Some t"
    and idle: "suspended \<sigma> t = None" "t \<notin> set (runq (kern \<sigma>))"
  shows "\<exists>s'. kmutex_unlock (kern \<sigma>) = Inr s'
            \<and> handed s' = take 1 (waiters (kern \<sigma>))
            \<and> sys_inv (\<sigma>\<lparr>kern := s', owners := [], granted := granted \<sigma> @ handed s'\<rparr>)"
proof (cases "waiters (kern \<sigma>)")
  case Nil
  with inv have "tq_size (km_waitq (mtx (kern \<sigma>))) = 0"
    by (simp add: sys_inv_def waitq_ok_def waiters_def)
  with cur hold
  have "kmutex_unlock (kern \<sigma>) = Inr ((kern \<sigma>)\<lparr>mtx := (mtx (kern \<sigma>))\<lparr>km_holder := None\<rparr>\<rparr>)"
    by (rule kmutex_unlock_empty)
  moreover
  have "sys_inv (\<sigma>\<lparr>kern := (kern \<sigma>)\<lparr>mtx := (mtx (kern \<sigma>))\<lparr>km_holder := None\<rparr>\<rparr>,
                   owners := [], granted := granted \<sigma> @ []\<rparr>)"
    using inv Nil hold idle
    by (auto simp: sys_inv_def waitq_ok_def waiters_def)
  ultimately show ?thesis
    using Nil by (simp add: handed_def)
next
  case (Cons w rest)
  with inv have n: "tq_size (km_waitq (mtx (kern \<sigma>))) \<noteq> 0"
    by (simp add: sys_inv_def waitq_ok_def waiters_def)
  from Cons inv hold have w: "w \<noteq> t"
    by (auto simp: sys_inv_def)
  let ?s' = "(kern \<sigma>)\<lparr>mtx := (mtx (kern \<sigma>))\<lparr>km_waitq := (km_waitq (mtx (kern \<sigma>)))
                        \<lparr>tq_list := rest, tq_size := tq_size (km_waitq (mtx (kern \<sigma>))) - 1\<rparr>,
                      km_holder := Some w\<rparr>,
                  threads := (threads (kern \<sigma>))(w := (threads (kern \<sigma>) w)\<lparr>kt_state := KT_RUN\<rparr>),
                  runq := runq (kern \<sigma>) @ [w]\<rparr>"
  have "kmutex_unlock (kern \<sigma>) = Inr ?s'"
    using cur hold n Cons w by (simp add: kmutex_unlock_handoff waiters_def)
  moreover
  have "sys_inv (\<sigma>\<lparr>kern := ?s', owners := [], granted := granted \<sigma> @ [w]\<rparr>)"
    using inv Cons hold idle w
    by (auto simp: sys_inv_def waitq_ok_def waiters_def)
  ultimately show ?thesis
    using Cons by (simp add: handed_def)
qed


lemma sys_inv_lock:
  assumes inv: "sys_inv \<sigma>" and step: "sys_call t Lock \<sigma> = Inr \<sigma>'"
  shows "sys_inv \<sigma>'"
proof -
  let ?s = "(kern \<sigma>)\<lparr>curthr := Some t\<rparr>"
  from step have idle: "suspended \<sigma> t = None" "t \<notin> set (runq (kern \<sigma>))"
    by (auto simp: sys_call_def split: if_splits)
  with step have out: "settle t In_kmutex_lock \<sigma> (as_int (kmutex_lock ?s)) = Inr \<sigma>'"
    by (simp add: sys_call_def)
  have self: "km_holder (mtx (kern \<sigma>)) \<noteq> Some t"
    using out by (auto simp: kmutex_lock_def settle_def as_int_def)
  show ?thesis
  proof (cases "km_holder (mtx (kern \<sigma>)) = None")
    case True
    then have "kmutex_lock ?s = Return () (claimed t ?s)"
      by (simp add: kmutex_lock_free_eq claimed_def)
    with out have "\<sigma>' = \<sigma>\<lparr>kern := claimed t ?s, suspended := (suspended \<sigma>)(t := None),
                           owners := owners \<sigma> @ [t]\<rparr>"
      by (simp add: settle_def as_int_def)
    with inv idle True show ?thesis
      by (simp add: settle_claimed)
  next
    case False
    with self have "kmutex_lock ?s = Switch (blocked t KT_SLEEP ?s)"
      by (simp add: kmutex_lock_held_eq)
    with out have "\<sigma>' = \<sigma>\<lparr>kern := blocked t KT_SLEEP ?s,
                           suspended := (suspended \<sigma>)(t \<mapsto> In_kmutex_lock),
                           arrived := arrived \<sigma> @ [t]\<rparr>"
      by (simp add: settle_def as_int_def)
    with inv idle False self show ?thesis
      by (simp add: settle_blocked)
  qed
qed

lemma sys_inv_unlock_call:
  assumes inv: "sys_inv \<sigma>" and step: "sys_call t Unlock \<sigma> = Inr \<sigma>'"
  shows "sys_inv \<sigma>'"
proof -
  let ?\<sigma> = "\<sigma>\<lparr>kern := (kern \<sigma>)\<lparr>curthr := Some t\<rparr>\<rparr>"
  from step have idle: "suspended \<sigma> t = None" "t \<notin> set (runq (kern \<sigma>))"
    by (auto simp: sys_call_def split: if_splits)
  from step idle obtain s' where u: "kmutex_unlock ((kern \<sigma>)\<lparr>curthr := Some t\<rparr>) = Inr s'"
    and \<sigma>': "\<sigma>' = \<sigma>\<lparr>kern := s', owners := remove1 t (owners \<sigma>),
                        granted := granted \<sigma> @ handed s'\<rparr>"
    by (auto simp: sys_call_def split: sum.splits)
  from u have hold: "km_holder (mtx (kern \<sigma>)) = Some t"
    by (auto simp: kmutex_unlock_def split: if_splits)
  with inv have own: "remove1 t (owners \<sigma>) = []"
    by (auto simp: sys_inv_def)
  have "sys_inv ?\<sigma>"
    using inv by (rule sys_inv_curthr)
  then obtain s'' where "kmutex_unlock (kern ?\<sigma>) = Inr s''"
    and "sys_inv (?\<sigma>\<lparr>kern := s'', owners := [], granted := granted ?\<sigma> @ handed s''\<rparr>)"
    using sys_inv_unlock [of ?\<sigma> t] hold idle by auto
  with u \<sigma>' own show ?thesis
    by simp
qed


lemma sys_inv_lock_cancellable:
  assumes inv: "sys_inv \<sigma>" and step: "sys_call t Lock_cancellable \<sigma> = Inr \<sigma>'"
  shows "sys_inv \<sigma>'"
proof -
  let ?s = "(kern \<sigma>)\<lparr>curthr := Some t\<rparr>"
  from step have idle: "suspended \<sigma> t = None" "t \<notin> set (runq (kern \<sigma>))"
    by (auto simp: sys_call_def split: if_splits)
  with step
  have out: "settle t In_kmutex_lock_cancellable \<sigma> (kmutex_lock_cancellable ?s) = Inr \<sigma>'"
    by (simp add: sys_call_def)
  have self: "km_holder (mtx (kern \<sigma>)) \<noteq> Some t"
    using out by (auto simp: kmutex_lock_cancellable_def settle_def)
  show ?thesis
  proof (cases "km_holder (mtx (kern \<sigma>)) = None")
    case free: True
    show ?thesis
    proof (cases "kt_cancelled (threads (kern \<sigma>) t) = 0")
      case True
      with free have "kmutex_lock_cancellable ?s = Return 0 (claimed t ?s)"
        by (simp add: kmutex_lock_cancellable_free_eq kmutex_lock_cancellable_resume_clear
            claimed_def)
      with out have "\<sigma>' = \<sigma>\<lparr>kern := claimed t ?s, suspended := (suspended \<sigma>)(t := None),
                             owners := owners \<sigma> @ [t]\<rparr>"
        by (simp add: settle_def)
      with inv idle free show ?thesis
        by (simp add: settle_claimed)
    next
      case False
      from inv free have "tq_size (km_waitq (mtx (kern \<sigma>))) = 0"
        by (simp add: sys_inv_def waitq_ok_def waiters_def)
      with False free have "kmutex_lock_cancellable ?s = Return (- EINTR) ?s"
        by (simp add: kmutex_lock_cancellable_free_cancelled)
      with out have "\<sigma>' = \<sigma>\<lparr>kern := ?s, suspended := (suspended \<sigma>)(t := None),
                             granted := granted \<sigma> @ handed ?s\<rparr>"
        by (simp add: settle_def EINTR_def)
      with inv idle free show ?thesis
        by (auto simp: sys_inv_def waitq_ok_def waiters_def handed_def)
    qed
  next
    case False
    with self have "kmutex_lock_cancellable ?s = Switch (blocked t KT_SLEEP_CANCELLABLE ?s)"
      by (simp add: kmutex_lock_cancellable_held_eq)
    with out have "\<sigma>' = \<sigma>\<lparr>kern := blocked t KT_SLEEP_CANCELLABLE ?s,
                           suspended := (suspended \<sigma>)(t \<mapsto> In_kmutex_lock_cancellable),
                           arrived := arrived \<sigma> @ [t]\<rparr>"
      by (simp add: settle_def)
    with inv idle False self show ?thesis
      by (simp add: settle_blocked)
  qed
qed

lemma sys_inv_granted:
  assumes inv: "sys_inv \<sigma>" and run: "t \<in> set (runq (kern \<sigma>))"
    and susp: "suspended \<sigma> t \<noteq> None"
  shows "sys_inv (\<sigma>\<lparr>kern := (kern \<sigma>)\<lparr>curthr := Some t, runq := removeAll t (runq (kern \<sigma>))\<rparr>,
                     suspended := (suspended \<sigma>)(t := None), owners := owners \<sigma> @ [t]\<rparr>)"
proof -
  from assms have "km_holder (mtx (kern \<sigma>)) = Some t" and "owners \<sigma> = []"
    by (auto simp: sys_inv_def)
  with sys_inv_dispatched [OF inv run] show ?thesis
    by (auto simp: sys_inv_def waitq_ok_def waiters_def)
qed

lemma sys_inv_dispatch:
  assumes inv: "sys_inv \<sigma>" and step: "sys_dispatch t \<sigma> = Inr \<sigma>'"
  shows "sys_inv \<sigma>'"
proof -
  let ?k = "(kern \<sigma>)\<lparr>curthr := Some t, runq := removeAll t (runq (kern \<sigma>))\<rparr>"
  let ?\<sigma> = "\<sigma>\<lparr>kern := ?k, suspended := (suspended \<sigma>)(t := None)\<rparr>"
  from step have run: "t \<in> set (runq (kern \<sigma>))"
    by (auto simp: sys_dispatch_def split: if_splits)
  have disp: "sys_inv ?\<sigma>"
    using inv run by (rule sys_inv_dispatched)
  show ?thesis
  proof (cases "suspended \<sigma> t")
    case None
    with step run have "\<sigma>' = \<sigma>\<lparr>kern := ?k\<rparr>"
      by (simp add: sys_dispatch_def)
    moreover from None have "(suspended \<sigma>)(t := None) = suspended \<sigma>"
      by auto
    ultimately show ?thesis
      using disp by simp
  next
    case (Some k)
    with inv run have hold: "km_holder (mtx (kern \<sigma>)) = Some t" and own: "owners \<sigma> = []"
      by (auto simp: sys_inv_def)
    show ?thesis
    proof (cases "k = In_kmutex_lock \<or> kt_cancelled (threads (kern \<sigma>) t) = 0")
      case True
      with hold have "(k = In_kmutex_lock \<and> as_int (kmutex_lock_resume ?k) = Return 0 ?k)
                    \<or> (k = In_kmutex_lock_cancellable
                       \<and> kmutex_lock_cancellable_resume ?k = Return 0 ?k)"
        by (cases k)
          (simp_all add: kmutex_lock_resume_granted kmutex_lock_cancellable_resume_clear
            as_int_def)
      with step run Some
      have "\<sigma>' = \<sigma>\<lparr>kern := ?k, suspended := (suspended \<sigma>)(t := None),
                     owners := owners \<sigma> @ [t]\<rparr>"
        by (auto simp: sys_dispatch_def settle_def)
      with inv run Some show ?thesis
        by (simp add: sys_inv_granted)
    next
      case False
      then have k: "k = In_kmutex_lock_cancellable"
        and flag: "kt_cancelled (threads (kern \<sigma>) t) \<noteq> 0"
        by (cases k; simp)+
      obtain s' where u: "kmutex_unlock ?k = Inr s'"
        and i: "sys_inv (?\<sigma>\<lparr>kern := s', owners := [], granted := granted ?\<sigma> @ handed s'\<rparr>)"
        using sys_inv_unlock [OF disp, of t] hold by auto
      from u hold flag have "kmutex_lock_cancellable_resume ?k = Return (- EINTR) s'"
        by (simp add: kmutex_lock_cancellable_resume_cancelled)
      with step run Some k
      have "\<sigma>' = \<sigma>\<lparr>kern := s', suspended := (suspended \<sigma>)(t := None),
                     granted := granted \<sigma> @ handed s'\<rparr>"
        by (simp add: sys_dispatch_def settle_def EINTR_def)
      with i own show ?thesis
        by (auto simp: sys_inv_def handed_def)
    qed
  qed
qed

lemma sys_inv_step:
  assumes "sys_inv \<sigma>" and "step e \<sigma> = Inr \<sigma>'"
  shows "sys_inv \<sigma>'"
proof (cases e)
  case (Call t c)
  with assms show ?thesis
    by (cases c) (auto intro: sys_inv_lock sys_inv_lock_cancellable sys_inv_unlock_call)
next
  case (Dispatch t)
  with assms show ?thesis
    by (auto intro: sys_inv_dispatch)
qed

lemma sys_inv_run:
  assumes "sys_inv \<sigma>" and "run es \<sigma> = Inr \<sigma>'"
  shows "sys_inv \<sigma>'"
  using assms
proof (induction es arbitrary: \<sigma>)
  case Nil
  then show ?case by simp
next
  case (Cons e es)
  from Cons.prems(2) obtain \<sigma>1 where s: "step e \<sigma> = Inr \<sigma>1" and r: "run es \<sigma>1 = Inr \<sigma>'"
    by (auto split: sum.splits)
  from Cons.prems(1) s have "sys_inv \<sigma>1"
    by (rule sys_inv_step)
  then show ?case
    using r by (rule Cons.IH)
qed

subsection \<open>Blocking, hand-off and resumption\<close>

lemmas run_defs = sys_init_def fresh_def kmutex_init_def sys_call_def sys_dispatch_def
  settle_def as_int_def kmutex_lock_def kmutex_lock_resume_def kmutex_unlock_def
  kmutex_unlock_body_def ktqueue_enqueue_def ktqueue_dequeue_def sched_make_runnable_def
  handed_def waiters_def

lemma handed_thread_resumes:
  assumes inv: "sys_inv \<sigma>" and susp: "suspended \<sigma> t = Some In_kmutex_lock"
    and hold: "km_holder (mtx (kern \<sigma>)) = Some t"
  shows "\<exists>\<sigma>'. step (Dispatch t) \<sigma> = Inr \<sigma>' \<and> curthr (kern \<sigma>') = Some t
            \<and> km_holder (mtx (kern \<sigma>')) = Some t \<and> suspended \<sigma>' t = None
            \<and> owners \<sigma>' = [t]"
proof -
  let ?k = "(kern \<sigma>)\<lparr>curthr := Some t, runq := removeAll t (runq (kern \<sigma>))\<rparr>"
  from assms have run: "t \<in> set (runq (kern \<sigma>))" and own: "owners \<sigma> = []"
    by (auto simp: sys_inv_def)
  from hold have "kmutex_lock_resume ?k = Return () ?k"
    by (simp add: kmutex_lock_resume_granted)
  with run susp have "step (Dispatch t) \<sigma>
      = Inr (\<sigma>\<lparr>kern := ?k, suspended := (suspended \<sigma>)(t := None), owners := owners \<sigma> @ [t]\<rparr>)"
    by (simp add: sys_dispatch_def settle_def as_int_def)
  with hold own show ?thesis
    by simp
qed

lemma kmutex_lock_resume_returns:
  assumes "kmutex_lock_resume s = Return v s'"
  shows "curthr s' \<noteq> None \<and> km_holder (mtx s') = curthr s'"
proof (cases "curthr s \<noteq> None \<and> curthr s = km_holder (mtx s)")
  case True
  then have "kmutex_lock_resume s = Return () s"
    unfolding kmutex_lock_resume_def by (rule if_P)
  with assms have "s' = s"
    by simp
  with True show ?thesis
    by metis
next
  case False
  then have "kmutex_lock_resume s = Panic Assertion_failed"
    unfolding kmutex_lock_resume_def by (rule if_not_P)
  with assms show ?thesis
    by simp
qed

lemma kmutex_lock_returns:
  assumes "kmutex_lock s = Return v s'"
  shows "curthr s' \<noteq> None \<and> km_holder (mtx s') = curthr s'"
proof (cases "curthr s")
  case None
  with assms show ?thesis
    by (simp add: kmutex_lock_def)
next
  case (Some t)
  show ?thesis
  proof (cases "km_holder (mtx s) = None")
    case True
    with Some assms have "kmutex_lock_resume (claimed t s) = Return v s'"
      by (simp add: kmutex_lock_def claimed_def)
    then show ?thesis
      by (rule kmutex_lock_resume_returns)
  next
    case False
    with Some assms show ?thesis
      by (simp add: kmutex_lock_def split: if_splits)
  qed
qed

text \<open>
  C3. A thread that does not hold the mutex calls lock while another thread holds it:
  its state becomes \<^verbatim>\<open>KT_SLEEP\<close>, it is appended to the wait queue, the holder stays,
  and the call switches away. Whenever lock returns, at once or after the switch, the
  caller is the holder. In every state the system can reach, a thread suspended in lock
  is on the run queue exactly when it is the holder and on the wait queue exactly when
  it is not; while it is not the holder it cannot be dispatched; when it is, the latest
  hand-off of an unlock went to it, and dispatching it makes the lock call return, with
  no assertion failing, to a caller that holds the mutex.
\<close>

theorem kmutex_lock_blocks_until_handed:
  "(curthr s = Some t \<and> km_holder (mtx s) \<noteq> None \<and> km_holder (mtx s) \<noteq> Some t \<longrightarrow>
       kmutex_lock s = Switch (blocked t KT_SLEEP s)
       \<and> kt_state (threads (blocked t KT_SLEEP s) t) = KT_SLEEP
       \<and> waiters (blocked t KT_SLEEP s) = waiters s @ [t]
       \<and> km_holder (mtx (blocked t KT_SLEEP s)) = km_holder (mtx s))
   \<and> (\<forall>v s'. kmutex_lock s = Return v s' \<or> kmutex_lock_resume s = Return v s' \<longrightarrow>
         curthr s' \<noteq> None \<and> km_holder (mtx s') = curthr s')
   \<and> (\<forall>es s0 \<sigma>. run es (sys_init s0) = Inr \<sigma> \<and> suspended \<sigma> t = Some In_kmutex_lock \<longrightarrow>
         (t \<in> set (runq (kern \<sigma>)) \<longleftrightarrow> km_holder (mtx (kern \<sigma>)) = Some t)
         \<and> (t \<in> set (waiters (kern \<sigma>)) \<longleftrightarrow> km_holder (mtx (kern \<sigma>)) \<noteq> Some t)
         \<and> (km_holder (mtx (kern \<sigma>)) \<noteq> Some t \<longrightarrow>
              step (Dispatch t) \<sigma> = Inl Not_schedulable)
         \<and> (km_holder (mtx (kern \<sigma>)) = Some t \<longrightarrow>
              granted \<sigma> \<noteq> [] \<and> last (granted \<sigma>) = t
              \<and> (\<exists>\<sigma>'. step (Dispatch t) \<sigma> = Inr \<sigma>' \<and> curthr (kern \<sigma>') = Some t
                    \<and> km_holder (mtx (kern \<sigma>')) = Some t \<and> suspended \<sigma>' t = None
                    \<and> owners \<sigma>' = [t])))"
proof (intro conjI allI impI)
  assume a: "curthr s = Some t \<and> km_holder (mtx s) \<noteq> None \<and> km_holder (mtx s) \<noteq> Some t"
  then show "kmutex_lock s = Switch (blocked t KT_SLEEP s)"
    by (simp add: kmutex_lock_held_eq)
  show "kt_state (threads (blocked t KT_SLEEP s) t) = KT_SLEEP"
    and "waiters (blocked t KT_SLEEP s) = waiters s @ [t]"
    and "km_holder (mtx (blocked t KT_SLEEP s)) = km_holder (mtx s)"
    by (simp_all add: blocked_def waiters_def)
next
  fix v s'
  assume r: "kmutex_lock s = Return v s' \<or> kmutex_lock_resume s = Return v s'"
  then show "curthr s' \<noteq> None" and "km_holder (mtx s') = curthr s'"
    using kmutex_lock_returns kmutex_lock_resume_returns by blast+
next
  fix es s0 \<sigma>
  assume a: "run es (sys_init s0) = Inr \<sigma> \<and> suspended \<sigma> t = Some In_kmutex_lock"
  then have inv: "sys_inv \<sigma>"
    using sys_inv_init sys_inv_run by blast
  from a have susp: "suspended \<sigma> t = Some In_kmutex_lock"
    by simp
  from inv susp show "t \<in> set (runq (kern \<sigma>)) \<longleftrightarrow> km_holder (mtx (kern \<sigma>)) = Some t"
    by (auto simp: sys_inv_def)
  from inv susp show w: "t \<in> set (waiters (kern \<sigma>)) \<longleftrightarrow> km_holder (mtx (kern \<sigma>)) \<noteq> Some t"
    by (auto simp: sys_inv_def)
  {
    assume "km_holder (mtx (kern \<sigma>)) \<noteq> Some t"
    with w inv have "t \<notin> set (runq (kern \<sigma>))"
      by (auto simp: sys_inv_def)
    then show "step (Dispatch t) \<sigma> = Inl Not_schedulable"
      by (simp add: sys_dispatch_def)
  }
  {
    assume hold: "km_holder (mtx (kern \<sigma>)) = Some t"
    with inv susp show "granted \<sigma> \<noteq> []" and "last (granted \<sigma>) = t"
      by (auto simp: sys_inv_def)
    from inv susp hold
    show "\<exists>\<sigma>'. step (Dispatch t) \<sigma> = Inr \<sigma>' \<and> curthr (kern \<sigma>') = Some t
                    \<and> km_holder (mtx (kern \<sigma>')) = Some t \<and> suspended \<sigma>' t = None
                    \<and> owners \<sigma>' = [t]"
      by (rule handed_thread_resumes)
  }
qed

theorem kmutex_lock_blocks_until_handed_witness:
  "kmutex_lock (held_by 1 [] 2) = Switch (blocked 2 KT_SLEEP (held_by 1 [] 2))
   \<and> waiters (blocked 2 KT_SLEEP (held_by 1 [] 2)) = [2]
   \<and> kmutex_lock_resume (held_by 2 [] 2) = Return () (held_by 2 [] 2)
   \<and> km_holder (mtx (held_by 2 [] 2)) = curthr (held_by 2 [] 2)
   \<and> (\<exists>\<sigma>. run [Call 1 Lock, Call 2 Lock] (sys_init fresh) = Inr \<sigma>
          \<and> suspended \<sigma> 2 = Some In_kmutex_lock
          \<and> km_holder (mtx (kern \<sigma>)) \<noteq> Some 2
          \<and> step (Dispatch 2) \<sigma> = Inl Not_schedulable)
   \<and> (\<exists>\<sigma>. run [Call 1 Lock, Call 2 Lock, Call 1 Unlock] (sys_init fresh) = Inr \<sigma>
          \<and> suspended \<sigma> 2 = Some In_kmutex_lock
          \<and> km_holder (mtx (kern \<sigma>)) = Some 2
          \<and> (\<exists>\<sigma>'. step (Dispatch 2) \<sigma> = Inr \<sigma>' \<and> curthr (kern \<sigma>') = Some 2
                 \<and> km_holder (mtx (kern \<sigma>')) = Some 2 \<and> owners \<sigma>' = [2]))"
proof -
  note th = kmutex_lock_blocks_until_handed [of "held_by 1 [] 2" 2]
  have pre: "curthr (held_by 1 [] 2) = Some 2 \<and> km_holder (mtx (held_by 1 [] 2)) \<noteq> None
             \<and> km_holder (mtx (held_by 1 [] 2)) \<noteq> Some 2"
    by (simp add: held_by_def fresh_def)
  note blk = th [THEN conjunct1, rule_format, OF pre]
  note sys = th [THEN conjunct2, THEN conjunct2, rule_format]
  have "\<exists>\<sigma>. run [Call 1 Lock, Call 2 Lock] (sys_init fresh) = Inr \<sigma>
          \<and> suspended \<sigma> 2 = Some In_kmutex_lock \<and> km_holder (mtx (kern \<sigma>)) \<noteq> Some 2"
    by (simp add: run_defs)
  then obtain \<sigma>1 where r1: "run [Call 1 Lock, Call 2 Lock] (sys_init fresh) = Inr \<sigma>1
      \<and> suspended \<sigma>1 2 = Some In_kmutex_lock" and h1: "km_holder (mtx (kern \<sigma>1)) \<noteq> Some 2"
    by blast
  have "\<exists>\<sigma>. run [Call 1 Lock, Call 2 Lock, Call 1 Unlock] (sys_init fresh) = Inr \<sigma>
          \<and> suspended \<sigma> 2 = Some In_kmutex_lock \<and> km_holder (mtx (kern \<sigma>)) = Some 2"
    by (simp add: run_defs)
  then obtain \<sigma>2 where r2: "run [Call 1 Lock, Call 2 Lock, Call 1 Unlock] (sys_init fresh) = Inr \<sigma>2
      \<and> suspended \<sigma>2 2 = Some In_kmutex_lock" and h2: "km_holder (mtx (kern \<sigma>2)) = Some 2"
    by blast
  from sys [OF r1] h1 have "step (Dispatch 2) \<sigma>1 = Inl Not_schedulable"
    by blast
  moreover from sys [OF r2] h2
  have "\<exists>\<sigma>'. step (Dispatch 2) \<sigma>2 = Inr \<sigma>' \<and> curthr (kern \<sigma>') = Some 2
                 \<and> km_holder (mtx (kern \<sigma>')) = Some 2 \<and> owners \<sigma>' = [2]"
    by blast
  moreover from blk have "waiters (blocked 2 KT_SLEEP (held_by 1 [] 2)) = [2]"
    by (simp add: waiters_def held_by_def fresh_def)
  moreover have ret: "kmutex_lock_resume (held_by 2 [] 2) = Return () (held_by 2 [] 2)"
    by (simp add: kmutex_lock_resume_granted held_by_def fresh_def)
  moreover have "km_holder (mtx (held_by 2 [] 2)) = curthr (held_by 2 [] 2)"
    using kmutex_lock_blocks_until_handed [of "held_by 2 [] 2" 2, THEN conjunct2,
        THEN conjunct1, rule_format, of "()" "held_by 2 [] 2"] ret
    by simp
  ultimately show ?thesis
    using blk r1 h1 r2 h2 by auto
qed

subsection \<open>Arrival order and ownership\<close>

lemma owner_unlocks:
  assumes inv: "sys_inv \<sigma>" and own: "t \<in> set (owners \<sigma>)"
  shows "\<exists>\<sigma>'. step (Call t Unlock) \<sigma> = Inr \<sigma>'
            \<and> granted \<sigma>' = granted \<sigma> @ take 1 (waiters (kern \<sigma>))
            \<and> km_holder (mtx (kern \<sigma>')) =
                (case waiters (kern \<sigma>) of [] \<Rightarrow> None | w # rest \<Rightarrow> Some w)
            \<and> owners \<sigma>' = []"
proof -
  let ?\<sigma> = "\<sigma>\<lparr>kern := (kern \<sigma>)\<lparr>curthr := Some t\<rparr>\<rparr>"
  from inv own have o: "owners \<sigma> = [t]" and hold: "km_holder (mtx (kern \<sigma>)) = Some t"
    and idle: "suspended \<sigma> t = None" "t \<notin> set (runq (kern \<sigma>))"
    by (auto simp: sys_inv_def)
  have "sys_inv ?\<sigma>"
    using inv by (rule sys_inv_curthr)
  then obtain s' where u: "kmutex_unlock (kern ?\<sigma>) = Inr s'"
    and h: "handed s' = take 1 (waiters (kern ?\<sigma>))"
    using sys_inv_unlock [of ?\<sigma> t] hold idle by auto
  from u idle o have "step (Call t Unlock) \<sigma>
      = Inr (\<sigma>\<lparr>kern := s', owners := [], granted := granted \<sigma> @ handed s'\<rparr>)"
    by (simp add: sys_call_def)
  moreover from h
  have "km_holder (mtx s') = (case waiters (kern \<sigma>) of [] \<Rightarrow> None | w # rest \<Rightarrow> Some w)"
    by (auto simp: handed_def waiters_def split: option.splits list.splits)
  ultimately show ?thesis
    using h by (simp add: waiters_def)
qed

text \<open>
  C5. After any run of lock, cancellable lock and unlock calls and dispatches from the
  initial state, the threads in the order in which they were put on the wait queue are
  the threads in the order in which an unlock made them holder, followed by the threads
  still on the wait queue in its order: ownership is handed out in arrival order, and
  the next to receive it is the thread that has waited longest. At most one thread is
  back from a lock call with the mutex, and it is the holder; its unlock succeeds, hands
  the mutex to the head of the wait queue if there is one and frees it otherwise.
\<close>

theorem fifo_handoff_and_mutual_exclusion:
  assumes "run es (sys_init s) = Inr \<sigma>"
  shows "arrived \<sigma> = granted \<sigma> @ waiters (kern \<sigma>)
       \<and> length (owners \<sigma>) \<le> 1
       \<and> (\<forall>t \<in> set (owners \<sigma>).
            km_holder (mtx (kern \<sigma>)) = Some t
            \<and> (\<exists>\<sigma>'. step (Call t Unlock) \<sigma> = Inr \<sigma>'
                  \<and> granted \<sigma>' = granted \<sigma> @ take 1 (waiters (kern \<sigma>))
                  \<and> km_holder (mtx (kern \<sigma>')) =
                      (case waiters (kern \<sigma>) of [] \<Rightarrow> None | w # rest \<Rightarrow> Some w)
                  \<and> owners \<sigma>' = []))"
proof -
  have inv: "sys_inv \<sigma>"
    using sys_inv_init assms by (rule sys_inv_run)
  then have "arrived \<sigma> = granted \<sigma> @ waiters (kern \<sigma>)"
    by (simp add: sys_inv_def)
  moreover from inv have "length (owners \<sigma>) \<le> 1"
    by (auto simp: sys_inv_def)
  moreover from inv have "\<forall>t \<in> set (owners \<sigma>). km_holder (mtx (kern \<sigma>)) = Some t"
    by (auto simp: sys_inv_def)
  ultimately show ?thesis
    using owner_unlocks [OF inv] by blast
qed

theorem fifo_handoff_and_mutual_exclusion_witness:
  "\<exists>\<sigma>. run [Call 1 Lock, Call 2 Lock, Call 3 Lock, Call 1 Unlock, Dispatch 2] (sys_init fresh)
          = Inr \<sigma>
      \<and> arrived \<sigma> = [2, 3] \<and> granted \<sigma> = [2] \<and> waiters (kern \<sigma>) = [3] \<and> owners \<sigma> = [2]
      \<and> arrived \<sigma> = granted \<sigma> @ waiters (kern \<sigma>) \<and> length (owners \<sigma>) \<le> 1
      \<and> km_holder (mtx (kern \<sigma>)) = Some 2
      \<and> (\<exists>\<sigma>'. step (Call 2 Unlock) \<sigma> = Inr \<sigma>' \<and> granted \<sigma>' = [2, 3]
             \<and> km_holder (mtx (kern \<sigma>')) = Some 3 \<and> owners \<sigma>' = [])"
proof -
  have "\<exists>\<sigma>. run [Call 1 Lock, Call 2 Lock, Call 3 Lock, Call 1 Unlock, Dispatch 2]
               (sys_init fresh) = Inr \<sigma>
           \<and> arrived \<sigma> = [2, 3] \<and> granted \<sigma> = [2] \<and> waiters (kern \<sigma>) = [3]
           \<and> owners \<sigma> = [2]"
    by (simp add: run_defs)
  then obtain \<sigma> where r: "run [Call 1 Lock, Call 2 Lock, Call 3 Lock, Call 1 Unlock, Dispatch 2]
               (sys_init fresh) = Inr \<sigma>"
    and v: "arrived \<sigma> = [2, 3]" "granted \<sigma> = [2]" "waiters (kern \<sigma>) = [3]" "owners \<sigma> = [2]"
    by blast
  from fifo_handoff_and_mutual_exclusion [OF r] v r show ?thesis
    by auto
qed

end
